theory Spec2Isabelle
  imports Main
begin

section \<open>The user store (models/User.js)\<close>

text \<open>
  Timestamps are milliseconds since the epoch, as JavaScript's \<open>Date\<close> holds them;
  the difference of two dates is the difference of these integers. Every
  \<open>new Date()\<close> of the source is a parameter \<open>now\<close> of the function that reads
  the clock.
\<close>

type_synonym timestamp = int

text \<open>
  The class \<open>User\<close>. A field that can hold \<open>null\<close> or \<open>undefined\<close> is an option,
  \<open>None\<close> standing for either (the source never tells them apart on these
  fields). The field \<open>id\<close> is named \<open>id_user\<close>, since \<open>id\<close> is the identity
  function of HOL.
\<close>

record user =
  id_user :: nat
  email :: "string option"
  password :: "string option"
  name :: "string option"
  createdAt :: timestamp
  loginAttempts :: nat
  lastLoginAttempt :: "timestamp option"
  isLocked :: bool
  passwordResetToken :: "string option"
  passwordResetExpires :: "timestamp option"

text \<open>
  The constructor: \<open>createdAt || new Date().toISOString()\<close> takes the clock when no
  creation time is passed; the counters and the reset token start empty.
\<close>

definition new_User ::
  "nat \<Rightarrow> string option \<Rightarrow> string option \<Rightarrow> string option \<Rightarrow> timestamp option \<Rightarrow> timestamp \<Rightarrow> user"
where
  "new_User i e p n c now =
     \<lparr> id_user = i, email = e, password = p, name = n,
       createdAt = (case c of None \<Rightarrow> now | Some t \<Rightarrow> t),
       loginAttempts = 0, lastLoginAttempt = None, isLocked = False,
       passwordResetToken = None, passwordResetExpires = None \<rparr>"

text \<open>The module state: \<open>let users = []; let nextId = 1;\<close>\<close>

record store =
  users :: "user list"
  nextId :: nat

definition init_store :: store where
  "init_store = \<lparr> users = [], nextId = 1 \<rparr>"

text \<open>\<open>Array.prototype.findIndex\<close>: the first index whose element satisfies the
  predicate, \<open>None\<close> for the source's \<open>-1\<close>. \<open>Array.prototype.find\<close> is \<open>find\<close> of HOL.\<close>

fun findIndex :: "('a \<Rightarrow> bool) \<Rightarrow> 'a list \<Rightarrow> nat option" where
  "findIndex P [] = None"
| "findIndex P (x # xs) = (if P x then Some 0 else map_option Suc (findIndex P xs))"

text \<open>\<open>u.email === email\<close> for a request's email, which is a string.\<close>

definition has_email :: "string \<Rightarrow> user \<Rightarrow> bool" where
  "has_email e u = (email u = Some e)"

definition User_create :: "timestamp \<Rightarrow> string \<Rightarrow> string \<Rightarrow> string \<Rightarrow> store \<Rightarrow> user \<times> store" where
  "User_create now e p n s =
     (let u = new_User (nextId s) (Some e) (Some p) (Some n) None now
      in (u, s\<lparr> users := users s @ [u], nextId := nextId s + 1 \<rparr>))"

definition User_findByEmail :: "string \<Rightarrow> store \<Rightarrow> user option" where
  "User_findByEmail e s = find (has_email e) (users s)"

definition User_findById :: "nat \<Rightarrow> store \<Rightarrow> user option" where
  "User_findById i s = find (\<lambda>u. id_user u = i) (users s)"

text \<open>
  The object passed to \<open>update\<close>, for the keys its callers pass (\<open>name\<close>, \<open>email\<close>,
  \<open>password\<close>). The outer option says whether the key is an own property of the
  object, the inner one is its value: \<open>{ name, email }\<close> built from a request
  without \<open>email\<close> has the key \<open>email\<close> with the value \<open>undefined\<close>, that is
  \<open>Some None\<close>. The spread \<open>{ ...user, ...updateData }\<close> copies every own property
  of \<open>updateData\<close> over the user's, whatever its value.
\<close>

record updateData =
  upd_name :: "string option option"
  upd_email :: "string option option"
  upd_password :: "string option option"

definition spread :: "user \<Rightarrow> updateData \<Rightarrow> user" where
  "spread u d =
     u\<lparr> name := (case upd_name d of None \<Rightarrow> name u | Some v \<Rightarrow> v),
        email := (case upd_email d of None \<Rightarrow> email u | Some v \<Rightarrow> v),
        password := (case upd_password d of None \<Rightarrow> password u | Some v \<Rightarrow> v) \<rparr>"

definition User_update :: "nat \<Rightarrow> updateData \<Rightarrow> store \<Rightarrow> user option \<times> store" where
  "User_update i d s =
     (case findIndex (\<lambda>u. id_user u = i) (users s) of
        None \<Rightarrow> (None, s)
      | Some userIndex \<Rightarrow>
          (let updatedUser = spread (users s ! userIndex) d
           in (Some updatedUser, s\<lparr> users := (users s)[userIndex := updatedUser] \<rparr>)))"

text \<open>\<open>users.splice(userIndex, 1)\<close>\<close>

definition User_delete :: "nat \<Rightarrow> store \<Rightarrow> bool \<times> store" where
  "User_delete i s =
     (case findIndex (\<lambda>u. id_user u = i) (users s) of
        None \<Rightarrow> (False, s)
      | Some userIndex \<Rightarrow>
          (True, s\<lparr> users := take userIndex (users s) @ drop (Suc userIndex) (users s) \<rparr>))"

definition User_clear :: "store \<Rightarrow> store" where
  "User_clear s = init_store"

text \<open>
  The tail of \<open>trackLoginAttempt\<close> (from \<open>const user = users[userIndex]\<close> on): the
  attempt is recorded on the user at \<open>userIndex\<close>. The source changes the object in
  the list in place; the model puts the changed user at its index. The two clock
  reads of one call (the creation time of a new record and the time of the attempt)
  are the same \<open>now\<close>.
\<close>

definition recordAttempt :: "timestamp \<Rightarrow> bool \<Rightarrow> user \<Rightarrow> user" where
  "recordAttempt now success u =
     (if success then u\<lparr> loginAttempts := 0, isLocked := False, lastLoginAttempt := Some now \<rparr>
      else
        (let u1 = u\<lparr> loginAttempts := loginAttempts u + 1, lastLoginAttempt := Some now \<rparr>
         in if loginAttempts u1 \<ge> 3 then u1\<lparr> isLocked := True \<rparr> else u1))"

definition User_trackLoginAttempt :: "timestamp \<Rightarrow> string \<Rightarrow> bool \<Rightarrow> store \<Rightarrow> user option \<times> store" where
  "User_trackLoginAttempt now e success s =
     (case findIndex (has_email e) (users s) of
        None \<Rightarrow>
          if \<not> success then
            (let tempUser = new_User (nextId s) (Some e) None None (Some now) now;
                 user = recordAttempt now success tempUser
             in (Some user, s\<lparr> users := users s @ [user], nextId := nextId s + 1 \<rparr>))
          else (None, s)
      | Some userIndex \<Rightarrow>
          (let user = recordAttempt now success (users s ! userIndex)
           in (Some user, s\<lparr> users := (users s)[userIndex := user] \<rparr>)))"

text \<open>\<open>process.env.NODE_ENV === 'test' ? 2000 : 15 * 60 * 1000\<close>; the environment
  variable is a parameter, \<open>None\<close> when it is not set.\<close>

definition lockoutDuration :: "string option \<Rightarrow> int" where
  "lockoutDuration node_env = (if node_env = Some ''test'' then 2000 else 15 * 60 * 1000)"

definition User_isAccountLocked :: "string option \<Rightarrow> timestamp \<Rightarrow> string \<Rightarrow> store \<Rightarrow> bool \<times> store" where
  "User_isAccountLocked node_env now e s =
     (case find (has_email e) (users s) of
        None \<Rightarrow> (False, s)
      | Some u \<Rightarrow>
          if isLocked u then (True, s)
          else
            (case lastLoginAttempt u of
               None \<Rightarrow> (False, s)
             | Some t \<Rightarrow>
                 (let timeSinceLastAttempt = now - t
                  in if loginAttempts u \<ge> 3 \<and> timeSinceLastAttempt < lockoutDuration node_env
                     then (True, s)
                     else if timeSinceLastAttempt \<ge> lockoutDuration node_env then
                       (case findIndex (has_email e) (users s) of
                          None \<Rightarrow> (False, s)
                        | Some userIndex \<Rightarrow>
                            (False,
                             s\<lparr> users := (users s)[userIndex :=
                                  (users s ! userIndex)\<lparr> loginAttempts := 0, isLocked := False \<rparr>] \<rparr>))
                     else (False, s))))"

text \<open>\<open>process.env.NODE_ENV === 'test' ? 10000 : 60 * 60 * 1000\<close>\<close>

definition resetLifetime :: "string option \<Rightarrow> int" where
  "resetLifetime node_env = (if node_env = Some ''test'' then 10000 else 60 * 60 * 1000)"

text \<open>The token built from \<open>Math.random()\<close> is the parameter \<open>resetToken\<close>.\<close>

definition User_generatePasswordResetToken ::
  "string option \<Rightarrow> timestamp \<Rightarrow> string \<Rightarrow> string \<Rightarrow> store \<Rightarrow> user option \<times> store"
where
  "User_generatePasswordResetToken node_env now resetToken e s =
     (case findIndex (has_email e) (users s) of
        None \<Rightarrow> (None, s)
      | Some userIndex \<Rightarrow>
          (let user = (users s ! userIndex)\<lparr> passwordResetToken := Some resetToken,
                        passwordResetExpires := Some (now + resetLifetime node_env) \<rparr>
           in (Some user, s\<lparr> users := (users s)[userIndex := user] \<rparr>)))"

text \<open>\<open>new Date(user.passwordResetExpires)\<close>: \<open>new Date(null)\<close> is the epoch.\<close>

definition expiresDate :: "user \<Rightarrow> timestamp" where
  "expiresDate u = (case passwordResetExpires u of None \<Rightarrow> 0 | Some t \<Rightarrow> t)"

definition User_verifyPasswordResetToken :: "timestamp \<Rightarrow> string \<Rightarrow> string \<Rightarrow> store \<Rightarrow> user option" where
  "User_verifyPasswordResetToken now e token s =
     (case find (has_email e) (users s) of
        None \<Rightarrow> None
      | Some u \<Rightarrow>
          if passwordResetToken u \<noteq> Some token then None
          else if now > expiresDate u then None
          else Some u)"

definition User_resetPassword ::
  "timestamp \<Rightarrow> string \<Rightarrow> string \<Rightarrow> string \<Rightarrow> store \<Rightarrow> user option \<times> store"
where
  "User_resetPassword now e token newPassword s =
     (case findIndex (has_email e) (users s) of
        None \<Rightarrow> (None, s)
      | Some userIndex \<Rightarrow>
          (let u = users s ! userIndex
           in if passwordResetToken u \<noteq> Some token then (None, s)
              else if now > expiresDate u then (None, s)
              else
                (let user = u\<lparr> password := Some newPassword, passwordResetToken := None,
                              passwordResetExpires := None, loginAttempts := 0, isLocked := False \<rparr>
                 in (Some user, s\<lparr> users := (users s)[userIndex := user] \<rparr>))))"

section \<open>The controller (controllers/authController.js)\<close>

text \<open>
  What a handler answers. The constructors are the responses of the source by status
  and \<open>error\<close> text: \<open>Created\<close> 201, \<open>Conflict\<close> 409 "User already exists",
  \<open>Authenticated\<close> 200 "Login successful", \<open>InvalidCredentials\<close> 401 "Authentication
  failed" (with the number of remaining attempts when the message gives one),
  \<open>LockedOut\<close> 423 "Account locked", \<open>ResetLinkGeneric\<close> and \<open>ResetLinkSent\<close> 200
  (the second carries the token), \<open>InvalidOrExpiredToken\<close> 400, \<open>PasswordResetFailed\<close>
  400, \<open>PasswordResetDone\<close> 200, \<open>ProfileUpdated\<close> 200, \<open>InvalidEmailFormat\<close> 400,
  \<open>InvalidNameLength\<close> 400, \<open>EmailAlreadyExists\<close> 409, \<open>UserNotFound\<close> 404,
  \<open>InvalidCurrentPassword\<close> 401, \<open>InvalidNewPassword\<close> 400, \<open>UpdateFailed\<close> 500,
  \<open>PasswordChanged\<close> 200. \<open>InternalError\<close> is \<open>next(error)\<close>, the handler's \<open>catch\<close>.
  The signed token of a response is not modelled.
\<close>

datatype response =
    Created user
  | Conflict
  | Authenticated user
  | InvalidCredentials "int option"
  | LockedOut
  | ResetLinkGeneric
  | ResetLinkSent "string option"
  | InvalidOrExpiredToken
  | PasswordResetFailed
  | PasswordResetDone
  | ProfileUpdated user
  | InvalidEmailFormat
  | InvalidNameLength
  | EmailAlreadyExists
  | UserNotFound
  | InvalidCurrentPassword
  | InvalidNewPassword
  | UpdateFailed
  | PasswordChanged
  | InternalError

text \<open>\<open>const { password: _, ...userWithoutPassword } = user\<close>\<close>

definition userWithoutPassword :: "user \<Rightarrow> user" where
  "userWithoutPassword u = u\<lparr> password := None \<rparr>"

text \<open>
  \<open>bcrypt.hash\<close> and \<open>bcrypt.compare\<close> are the parameters \<open>hash\<close> and \<open>compare\<close> of
  the handlers that call them; nothing is assumed about them.
\<close>

definition register ::
  "(string \<Rightarrow> string) \<Rightarrow> timestamp \<Rightarrow> string \<Rightarrow> string \<Rightarrow> string \<Rightarrow> store \<Rightarrow> response \<times> store"
where
  "register hash now e pw n s =
     (case User_findByEmail e s of
        Some existingUser \<Rightarrow> (Conflict, s)
      | None \<Rightarrow>
          (case User_create now e (hash pw) n s of
             (u, s1) \<Rightarrow> (Created (userWithoutPassword u), s1)))"

text \<open>
  \<open>user.password ? await bcrypt.compare(password, user.password) : false\<close>: \<open>null\<close>
  and the empty string are falsy.
\<close>

definition isPasswordValid :: "(string \<Rightarrow> string \<Rightarrow> bool) \<Rightarrow> string \<Rightarrow> user \<Rightarrow> bool" where
  "isPasswordValid compare pw u =
     (case password u of
        None \<Rightarrow> False
      | Some d \<Rightarrow> if d = [] then False else compare pw d)"

text \<open>
  \<open>login\<close>: \<open>now1\<close> is the clock read by \<open>isAccountLocked\<close>, \<open>now2\<close> the one read by
  \<open>trackLoginAttempt\<close>.
\<close>

definition login ::
  "(string \<Rightarrow> string \<Rightarrow> bool) \<Rightarrow> string option \<Rightarrow> timestamp \<Rightarrow> timestamp \<Rightarrow> string \<Rightarrow> string \<Rightarrow> store
   \<Rightarrow> response \<times> store"
where
  "login compare node_env now1 now2 e pw s =
     (case User_isAccountLocked node_env now1 e s of
        (locked, s1) \<Rightarrow>
          if locked then (LockedOut, s1)
          else
            (case User_findByEmail e s1 of
               None \<Rightarrow> (InvalidCredentials None, snd (User_trackLoginAttempt now2 e False s1))
             | Some u \<Rightarrow>
                 (let valid = isPasswordValid compare pw u;
                      s2 = snd (User_trackLoginAttempt now2 e valid s1)
                  in if \<not> valid then
                       (case User_findByEmail e s2 of
                          None \<Rightarrow> (InternalError, s2)
                        | Some updatedUser \<Rightarrow>
                            (let remainingAttempts = 3 - int (loginAttempts updatedUser)
                             in if remainingAttempts > 0
                                then (InvalidCredentials (Some remainingAttempts), s2)
                                else (LockedOut, s2)))
                     else (Authenticated (userWithoutPassword u), s2))))"

definition requestPasswordReset ::
  "string option \<Rightarrow> timestamp \<Rightarrow> string \<Rightarrow> string \<Rightarrow> store \<Rightarrow> response \<times> store"
where
  "requestPasswordReset node_env now resetToken e s =
     (case User_findByEmail e s of
        None \<Rightarrow> (ResetLinkGeneric, s)
      | Some u \<Rightarrow>
          (case User_generatePasswordResetToken node_env now resetToken e s of
             (None, s1) \<Rightarrow> (InternalError, s1)
           | (Some userWithToken, s1) \<Rightarrow> (ResetLinkSent (passwordResetToken userWithToken), s1)))"

text \<open>
  \<open>resetPassword\<close>: \<open>now1\<close> is the clock read by \<open>verifyPasswordResetToken\<close>, \<open>now2\<close>
  the one read by \<open>User.resetPassword\<close>.
\<close>

definition resetPassword ::
  "(string \<Rightarrow> string) \<Rightarrow> timestamp \<Rightarrow> timestamp \<Rightarrow> string \<Rightarrow> string \<Rightarrow> string \<Rightarrow> store
   \<Rightarrow> response \<times> store"
where
  "resetPassword hash now1 now2 e token newPassword s =
     (case User_verifyPasswordResetToken now1 e token s of
        None \<Rightarrow> (InvalidOrExpiredToken, s)
      | Some u \<Rightarrow>
          (case User_resetPassword now2 e token (hash newPassword) s of
             (None, s1) \<Rightarrow> (PasswordResetFailed, s1)
           | (Some updatedUser, s1) \<Rightarrow> (PasswordResetDone, s1)))"

text \<open>
  \<open>/^[^\s@]+@[^\s@]+\.[^\s@]+$/\<close>. A character is a code unit below 256, of which
  \<open>\s\<close> matches tab, line feed, vertical tab, form feed, carriage return, space and
  the no-break space. The expression matches a string with exactly one \<open>@\<close>, no
  white space, a non-empty part before the \<open>@\<close>, and after it a dot that is neither
  its first nor its last character.
\<close>

definition is_space :: "char \<Rightarrow> bool" where
  "is_space c = (of_char c \<in> {9, 10, 11, 12, 13, 32, 160 :: nat})"

definition plain_char :: "char \<Rightarrow> bool" where
  "plain_char c = (\<not> is_space c \<and> c \<noteq> CHR ''@'')"

definition emailRegex_test :: "string \<Rightarrow> bool" where
  "emailRegex_test e =
     (let localPart = takeWhile (\<lambda>c. c \<noteq> CHR ''@'') e;
          rest = dropWhile (\<lambda>c. c \<noteq> CHR ''@'') e;
          domainPart = tl rest
      in localPart \<noteq> [] \<and> list_all plain_char localPart \<and> rest \<noteq> [] \<and>
         list_all plain_char domainPart \<and>
         list_ex (\<lambda>i. domainPart ! i = CHR ''.'') [1 ..< length domainPart - 1])"

text \<open>
  \<open>updateProfile\<close>: \<open>userId\<close> is \<open>req.user.userId\<close>; \<open>n\<close> and \<open>e\<close> are \<open>name\<close> and
  \<open>email\<close> of the request body, \<open>None\<close> when the body does not have them. \<open>if (email)\<close>
  and \<open>name &&\<close> hold for a non-empty string.
\<close>

definition updateProfile :: "nat \<Rightarrow> string option \<Rightarrow> string option \<Rightarrow> store \<Rightarrow> response \<times> store" where
  "updateProfile userId n e s =
     (if (case e of None \<Rightarrow> False | Some a \<Rightarrow> a \<noteq> [] \<and> \<not> emailRegex_test a)
      then (InvalidEmailFormat, s)
      else if (case n of None \<Rightarrow> False | Some b \<Rightarrow> b \<noteq> [] \<and> (length b < 2 \<or> length b > 50))
      then (InvalidNameLength, s)
      else if (case e of
                 None \<Rightarrow> False
               | Some a \<Rightarrow> a \<noteq> [] \<and>
                   (case User_findByEmail a s of
                      None \<Rightarrow> False
                    | Some existingUser \<Rightarrow> id_user existingUser \<noteq> userId))
      then (EmailAlreadyExists, s)
      else
        (case User_update userId \<lparr> upd_name = Some n, upd_email = Some e, upd_password = None \<rparr> s of
           (None, s1) \<Rightarrow> (UserNotFound, s1)
         | (Some updatedUser, s1) \<Rightarrow> (ProfileUpdated (userWithoutPassword updatedUser), s1)))"

text \<open>
  \<open>changePassword\<close>: \<open>bcrypt.compare\<close> rejects a hash that is not a string, so a user
  without a password ends in the handler's \<open>catch\<close>.
\<close>

definition changePassword ::
  "(string \<Rightarrow> string) \<Rightarrow> (string \<Rightarrow> string \<Rightarrow> bool) \<Rightarrow> nat \<Rightarrow> string \<Rightarrow> string \<Rightarrow> store
   \<Rightarrow> response \<times> store"
where
  "changePassword hash compare userId currentPassword newPassword s =
     (case User_findById userId s of
        None \<Rightarrow> (UserNotFound, s)
      | Some u \<Rightarrow>
          (case password u of
             None \<Rightarrow> (InternalError, s)
           | Some d \<Rightarrow>
               if \<not> compare currentPassword d then (InvalidCurrentPassword, s)
               else if compare newPassword d then (InvalidNewPassword, s)
               else
                 (case User_update userId
                         \<lparr> upd_name = None, upd_email = None,
                           upd_password = Some (Some (hash newPassword)) \<rparr> s of
                    (None, s1) \<Rightarrow> (UpdateFailed, s1)
                  | (Some updatedUser, s1) \<Rightarrow> (PasswordChanged, s1))))"

section \<open>Sequences of requests and of calls\<close>

text \<open>
  The requests the controller serves, each with the clock values its handler reads
  and, for a reset request, the token the store generates. Requests are served one
  after the other.
\<close>

datatype request =
    Register timestamp string string string
  | Login timestamp timestamp string string
  | RequestPasswordReset timestamp string string
  | ResetPassword timestamp timestamp string string string
  | UpdateProfile nat "string option" "string option"
  | ChangePassword nat string string

fun serve ::
  "(string \<Rightarrow> string) \<Rightarrow> (string \<Rightarrow> string \<Rightarrow> bool) \<Rightarrow> string option \<Rightarrow> request \<Rightarrow> store
   \<Rightarrow> response \<times> store"
where
  "serve hash compare node_env (Register now e pw n) s = register hash now e pw n s"
| "serve hash compare node_env (Login now1 now2 e pw) s = login compare node_env now1 now2 e pw s"
| "serve hash compare node_env (RequestPasswordReset now tok e) s =
     requestPasswordReset node_env now tok e s"
| "serve hash compare node_env (ResetPassword now1 now2 e tok pw) s =
     resetPassword hash now1 now2 e tok pw s"
| "serve hash compare node_env (UpdateProfile i n e) s = updateProfile i n e s"
| "serve hash compare node_env (ChangePassword i cur new) s =
     changePassword hash compare i cur new s"

fun serve_all ::
  "(string \<Rightarrow> string) \<Rightarrow> (string \<Rightarrow> string \<Rightarrow> bool) \<Rightarrow> string option \<Rightarrow> request list \<Rightarrow> store
   \<Rightarrow> response list \<times> store"
where
  "serve_all hash compare node_env [] s = ([], s)"
| "serve_all hash compare node_env (r # rs) s =
     (case serve hash compare node_env r s of
        (a, s1) \<Rightarrow>
          (case serve_all hash compare node_env rs s1 of
             (as, s2) \<Rightarrow> (a # as, s2)))"


text \<open>The calls of the store's own methods that change it.\<close>

datatype call =
    Create timestamp string string string
  | Update nat updateData
  | Delete nat
  | TrackLoginAttempt timestamp string bool
  | IsAccountLocked "string option" timestamp string
  | GeneratePasswordResetToken "string option" timestamp string string
  | ResetPasswordWithToken timestamp string string string
  | Clear

fun effect :: "call \<Rightarrow> store \<Rightarrow> store" where
  "effect (Create now e p n) s = snd (User_create now e p n s)"
| "effect (Update i d) s = snd (User_update i d s)"
| "effect (Delete i) s = snd (User_delete i s)"
| "effect (TrackLoginAttempt now e success) s = snd (User_trackLoginAttempt now e success s)"
| "effect (IsAccountLocked node_env now e) s = snd (User_isAccountLocked node_env now e s)"
| "effect (GeneratePasswordResetToken node_env now tok e) s =
     snd (User_generatePasswordResetToken node_env now tok e s)"
| "effect (ResetPasswordWithToken now e tok pw) s = snd (User_resetPassword now e tok pw s)"
| "effect Clear s = User_clear s"

text \<open>
  The stores reached from the empty one by the store's methods and the controller's
  handlers, in any order.
\<close>

inductive reachable_by_calls :: "store \<Rightarrow> bool" where
  by_calls_init: "reachable_by_calls init_store"
| by_calls_call: "reachable_by_calls s \<Longrightarrow> reachable_by_calls (effect c s)"
| by_calls_serve:
    "reachable_by_calls s \<Longrightarrow> reachable_by_calls (snd (serve hash compare node_env r s))"

section \<open>Properties of the users of a store\<close>

text \<open>A property that every user of the store has.\<close>

definition all_users :: "(user \<Rightarrow> bool) \<Rightarrow> store \<Rightarrow> bool" where
  "all_users P s = list_all P (users s)"

text \<open>A locked user has at least three failed attempts.\<close>

definition locked_at_threshold :: "user \<Rightarrow> bool" where
  "locked_at_threshold u = (isLocked u \<longrightarrow> 3 \<le> loginAttempts u)"

text \<open>A user has at most three failed attempts, and is locked exactly when it has three.\<close>

definition within_threshold :: "user \<Rightarrow> bool" where
  "within_threshold u = (loginAttempts u \<le> 3 \<and> (isLocked u \<longleftrightarrow> 3 \<le> loginAttempts u))"

text \<open>The fields of a user that are neither its name nor its email.\<close>

definition outside_profile ::
  "user \<Rightarrow> nat \<times> string option \<times> timestamp \<times> nat \<times> timestamp option \<times> bool \<times> string option \<times> timestamp option"
where
  "outside_profile u =
     (id_user u, password u, createdAt u, loginAttempts u, lastLoginAttempt u, isLocked u,
      passwordResetToken u, passwordResetExpires u)"

section \<open>Example data\<close>

text \<open>A toy hashing capability: the digest of a secret is the secret after a mark.\<close>

definition toy_hash :: "string \<Rightarrow> string" where
  "toy_hash p = CHR ''#'' # p"

definition toy_compare :: "string \<Rightarrow> string \<Rightarrow> bool" where
  "toy_compare p d = (d = toy_hash p)"

definition alice :: user where
  "alice = new_User 1 (Some ''alice@example.com'') (Some (toy_hash ''Secret123'')) (Some ''Alice'') None 0"

definition alice_store :: store where
  "alice_store = \<lparr> users = [alice], nextId = 2 \<rparr>"

definition alice_locked :: user where
  "alice_locked = alice\<lparr> loginAttempts := 3, lastLoginAttempt := Some 3, isLocked := True \<rparr>"

definition alice_locked_store :: store where
  "alice_locked_store = \<lparr> users = [alice_locked], nextId = 2 \<rparr>"

text \<open>Alice, locked, holding a reset token that expires at 3600010.\<close>

definition alice_with_token :: user where
  "alice_with_token =
     alice_locked\<lparr> passwordResetToken := Some ''k3x9'', passwordResetExpires := Some 3600010 \<rparr>"

definition alice_token_store :: store where
  "alice_token_store = \<lparr> users = [alice_with_token], nextId = 2 \<rparr>"

text \<open>The record that a failed login at time 7 leaves for an email nobody registered.\<close>

definition ghost :: user where
  "ghost =
     \<lparr> id_user = 1, email = Some ''ghost@example.com'', password = None, name = None,
       createdAt = 7, loginAttempts = 1, lastLoginAttempt = Some 7, isLocked = False,
       passwordResetToken = None, passwordResetExpires = None \<rparr>"

definition ghost_store :: store where
  "ghost_store = \<lparr> users = [ghost], nextId = 2 \<rparr>"

section \<open>Lookups in the list of users\<close>

lemma findIndex_None_iff: "findIndex P xs = None \<longleftrightarrow> find P xs = None"
  by (induction xs) auto

lemma findIndex_SomeD:
  "findIndex P xs = Some i \<Longrightarrow> i < length xs \<and> P (xs ! i) \<and> find P xs = Some (xs ! i)"
  by (induction xs arbitrary: i) (auto split: if_splits)

lemma find_Some_findIndex:
  "find P xs = Some u \<Longrightarrow> \<exists>i. findIndex P xs = Some i \<and> i < length xs \<and> xs ! i = u"
  by (induction xs) auto

lemma findIndex_update_same:
  "findIndex P xs = Some i \<Longrightarrow> P v \<Longrightarrow> findIndex P (xs[i := v]) = Some i"
  by (induction xs arbitrary: i) (auto split: if_splits)

lemma find_update_same:
  "findIndex P xs = Some i \<Longrightarrow> P v \<Longrightarrow> find P (xs[i := v]) = Some v"
  by (induction xs arbitrary: i) (auto split: if_splits)

lemma find_append_new:
  "find P xs = None \<Longrightarrow> P v \<Longrightarrow> find P (xs @ [v]) = Some v"
  by (induction xs) (auto split: if_splits)

lemma findIndex_append_new:
  "findIndex P xs = None \<Longrightarrow> P v \<Longrightarrow> findIndex P (xs @ [v]) = Some (length xs)"
  by (induction xs) (auto split: if_splits)

section \<open>The lock check, attempt tracking and login\<close>

lemma isAccountLocked_locked:
  "find (has_email e) (users s) = Some u \<Longrightarrow> isLocked u \<Longrightarrow>
   User_isAccountLocked node_env now e s = (True, s)"
  by (simp add: User_isAccountLocked_def)

lemma isAccountLocked_absent:
  "find (has_email e) (users s) = None \<Longrightarrow> User_isAccountLocked node_env now e s = (False, s)"
  by (simp add: User_isAccountLocked_def)

lemma user_reset_id:
  "loginAttempts u = 0 \<Longrightarrow> \<not> isLocked u \<Longrightarrow> u\<lparr>loginAttempts := 0, isLocked := False\<rparr> = u"
  by (cases u) simp

lemma isAccountLocked_fresh:
  assumes "find (has_email e) (users s) = Some u" "\<not> isLocked u" "loginAttempts u = 0"
  shows "User_isAccountLocked node_env now e s = (False, s)"
proof -
  from assms(1) obtain i where i: "findIndex (has_email e) (users s) = Some i" "i < length (users s)"
    "users s ! i = u" using find_Some_findIndex by fastforce
  have r: "(users s ! i)\<lparr>loginAttempts := 0, isLocked := False\<rparr> = users s ! i"
    using i assms by (simp add: user_reset_id)
  have "(users s)[i := (users s ! i)\<lparr>loginAttempts := 0, isLocked := False\<rparr>] = users s"
    by (simp only: r list_update_id)
  then show ?thesis using assms i
    by (simp add: User_isAccountLocked_def Let_def split: option.splits)
qed

lemma isAccountLocked_within:
  assumes "find (has_email e) (users s) = Some u" "\<not> isLocked u" "loginAttempts u < 3"
    "lastLoginAttempt u = Some t" "now - t < lockoutDuration node_env"
  shows "User_isAccountLocked node_env now e s = (False, s)"
  using assms by (simp add: User_isAccountLocked_def Let_def)

lemma trackLoginAttempt_found:
  assumes "findIndex (has_email e) (users s) = Some i"
  shows "User_trackLoginAttempt now e success s =
     (Some (recordAttempt now success (users s ! i)),
      s\<lparr>users := (users s)[i := recordAttempt now success (users s ! i)]\<rparr>)"
  using assms by (simp add: User_trackLoginAttempt_def Let_def)

lemma email_recordAttempt [simp]: "email (recordAttempt now success u) = email u"
  by (simp add: recordAttempt_def Let_def)

lemma has_email_recordAttempt [simp]: "has_email e (recordAttempt now success u) = has_email e u"
  by (simp add: has_email_def)


lemma trackLoginAttempt_absent:
  assumes "find (has_email e) (users s) = None"
  shows "User_trackLoginAttempt now e False s =
     (Some (recordAttempt now False (new_User (nextId s) (Some e) None None (Some now) now)),
      s\<lparr>users := users s @ [recordAttempt now False (new_User (nextId s) (Some e) None None (Some now) now)],
        nextId := nextId s + 1\<rparr>)"
proof -
  from assms have "findIndex (has_email e) (users s) = None" by (simp add: findIndex_None_iff)
  then show ?thesis by (simp add: User_trackLoginAttempt_def Let_def)
qed

lemma password_recordAttempt [simp]: "password (recordAttempt now success u) = password u"
  by (simp add: recordAttempt_def Let_def)

lemma isPasswordValid_recordAttempt [simp]:
  "isPasswordValid compare pw (recordAttempt now success u) = isPasswordValid compare pw u"
  by (simp add: isPasswordValid_def)

lemma recordAttempt_fail:
  "loginAttempts (recordAttempt now False u) = loginAttempts u + 1"
  "lastLoginAttempt (recordAttempt now False u) = Some now"
  "\<not> isLocked u \<Longrightarrow> isLocked (recordAttempt now False u) = (loginAttempts u + 1 \<ge> 3)"
  by (simp_all add: recordAttempt_def Let_def)

text \<open>A failed login when the lock check lets the request through.\<close>

lemma login_fail_step:
  assumes chk: "User_isAccountLocked node_env now1 e s = (False, s1)"
    and f: "findIndex (has_email e) (users s1) = Some i"
    and inv: "\<not> isPasswordValid compare pw (users s1 ! i)"
  shows "login compare node_env now1 now2 e pw s =
     ((if loginAttempts (users s1 ! i) + 1 < 3
       then InvalidCredentials (Some (3 - int (loginAttempts (users s1 ! i) + 1)))
       else LockedOut),
      s1\<lparr>users := (users s1)[i := recordAttempt now2 False (users s1 ! i)]\<rparr>)"
proof -
  from f have fi: "i < length (users s1)" "has_email e (users s1 ! i)"
    "find (has_email e) (users s1) = Some (users s1 ! i)"
    using findIndex_SomeD by fastforce+
  have upd: "find (has_email e) ((users s1)[i := recordAttempt now2 False (users s1 ! i)])
      = Some (recordAttempt now2 False (users s1 ! i))"
    using f fi by (simp add: find_update_same)
  show ?thesis
    using chk inv fi upd
    by (simp add: login_def User_findByEmail_def trackLoginAttempt_found [OF f] Let_def
        recordAttempt_fail)
qed

lemma login_fail_unlocked:
  assumes f: "findIndex (has_email e) (users s) = Some i" and u: "users s ! i = u"
    and ul: "\<not> isLocked u" and lt: "loginAttempts u < 3"
    and window: "loginAttempts u = 0 \<or> (\<exists>t. lastLoginAttempt u = Some t \<and> now1 - t < lockoutDuration node_env)"
    and inv: "\<not> isPasswordValid compare pw u"
  shows "login compare node_env now1 now2 e pw s =
     ((if loginAttempts u + 1 < 3 then InvalidCredentials (Some (3 - int (loginAttempts u + 1)))
       else LockedOut),
      s\<lparr>users := (users s)[i := recordAttempt now2 False u]\<rparr>)"
proof -
  from f u have fnd: "find (has_email e) (users s) = Some u" using findIndex_SomeD by fastforce
  have chk: "User_isAccountLocked node_env now1 e s = (False, s)"
    using window
  proof
    assume "loginAttempts u = 0"
    then show ?thesis using fnd ul by (rule_tac isAccountLocked_fresh)
  next
    assume "\<exists>t. lastLoginAttempt u = Some t \<and> now1 - t < lockoutDuration node_env"
    then show ?thesis using fnd ul lt isAccountLocked_within by blast
  qed
  show ?thesis using login_fail_step [OF chk f] inv u by simp
qed

lemma alice_found: "User_findByEmail ''alice@example.com'' alice_store = Some alice"
  by (simp add: User_findByEmail_def alice_store_def alice_def new_User_def has_email_def)

lemma alice_locked_found:
  "User_findByEmail ''alice@example.com'' alice_locked_store = Some alice_locked"
  by (simp add: User_findByEmail_def alice_locked_store_def alice_locked_def alice_def
      new_User_def has_email_def)

section \<open>Three failures lock the account\<close>

text \<open>
  Claim C2. An account found under its email with no failed attempt (and locked only
  with three or more failed attempts, as every user of a reachable store is) is sent
  three logins whose password check fails, each within the lockout duration of the
  attempt before it, and then a fourth login with any password (the right one
  included) within the lockout duration of the third. The answers are
  \<open>InvalidCredentials\<close> with 2 attempts remaining, \<open>InvalidCredentials\<close> with 1
  attempt remaining, \<open>LockedOut\<close> for the attempt that brings the count to 3, and
  \<open>LockedOut\<close> for the fourth.
\<close>

theorem C2_three_failures_lock:
  assumes found: "User_findByEmail e s0 = Some u"
    and zero: "loginAttempts u = 0"
    and threshold: "isLocked u \<longrightarrow> 3 \<le> loginAttempts u"
    and wrong: "\<not> isPasswordValid compare p1 u" "\<not> isPasswordValid compare p2 u"
      "\<not> isPasswordValid compare p3 u"
    and window: "t2 - t1' < lockoutDuration node_env" "t3 - t2' < lockoutDuration node_env"
      "t4 - t3' < lockoutDuration node_env"
  shows "fst (serve_all hash compare node_env
            [Login t1 t1' e p1, Login t2 t2' e p2, Login t3 t3' e p3, Login t4 t4' e p4] s0)
         = [InvalidCredentials (Some 2), InvalidCredentials (Some 1), LockedOut, LockedOut]"
proof -
  have fresh: "loginAttempts u = 0" "\<not> isLocked u"
    using zero threshold by auto
  from found obtain i where i: "findIndex (has_email e) (users s0) = Some i"
    "i < length (users s0)" "users s0 ! i = u"
    using find_Some_findIndex unfolding User_findByEmail_def by fastforce
  have he: "has_email e u" using i findIndex_SomeD by fastforce
  define u1 where "u1 = recordAttempt t1' False u"
  define u2 where "u2 = recordAttempt t2' False u1"
  define u3 where "u3 = recordAttempt t3' False u2"
  define s1 where "s1 = s0\<lparr>users := (users s0)[i := u1]\<rparr>"
  define s2 where "s2 = s1\<lparr>users := (users s1)[i := u2]\<rparr>"
  define s3 where "s3 = s2\<lparr>users := (users s2)[i := u3]\<rparr>"
  have a1: "loginAttempts u1 = 1" "\<not> isLocked u1" "lastLoginAttempt u1 = Some t1'"
    using fresh by (simp_all add: u1_def recordAttempt_fail)
  have a2: "loginAttempts u2 = 2" "\<not> isLocked u2" "lastLoginAttempt u2 = Some t2'"
    using a1 by (simp_all add: u2_def recordAttempt_fail)
  have a3: "loginAttempts u3 = 3" "isLocked u3"
    using a2 by (simp_all add: u3_def recordAttempt_fail)
  have i1: "findIndex (has_email e) (users s1) = Some i" "users s1 ! i = u1"
    using i he by (simp_all add: s1_def u1_def findIndex_update_same)
  have i2: "findIndex (has_email e) (users s2) = Some i" "users s2 ! i = u2"
    using i1 i he by (simp_all add: s2_def s1_def u2_def u1_def findIndex_update_same)
  have i3: "findIndex (has_email e) (users s3) = Some i" "users s3 ! i = u3"
    using i2 i he
    by (simp_all add: s3_def s2_def s1_def u3_def u2_def u1_def findIndex_update_same)
  have l1: "login compare node_env t1 t1' e p1 s0 = (InvalidCredentials (Some 2), s1)"
    using login_fail_unlocked [OF i(1) i(3) fresh(2), where node_env = node_env and ?now1.0 = t1 and compare = compare and pw = p1 and ?now2.0 = t1'] fresh wrong
    by (simp add: s1_def u1_def)
  have l2: "login compare node_env t2 t2' e p2 s1 = (InvalidCredentials (Some 1), s2)"
    using login_fail_unlocked [OF i1 a1(2), where node_env = node_env and ?now1.0 = t2 and compare = compare and pw = p2 and ?now2.0 = t2'] a1 wrong window
    by (simp add: s2_def u2_def u1_def)
  have l3: "login compare node_env t3 t3' e p3 s2 = (LockedOut, s3)"
    using login_fail_unlocked [OF i2 a2(2), where node_env = node_env and ?now1.0 = t3 and compare = compare and pw = p3 and ?now2.0 = t3'] a2 wrong window
    by (simp add: s3_def u3_def u2_def u1_def)
  have "find (has_email e) (users s3) = Some u3" using i3 findIndex_SomeD by fastforce
  then have l4: "login compare node_env t4 t4' e p4 s3 = (LockedOut, s3)"
    using a3 by (simp add: login_def isAccountLocked_locked)
  show ?thesis by (simp add: l1 l2 l3 l4)
qed

text \<open>The witness of C2: four logins against Alice's account, the last with her password.\<close>

theorem C2_three_failures_lock_witness:
  "User_findByEmail ''alice@example.com'' alice_store = Some alice \<and>
   loginAttempts alice = 0 \<and> \<not> isLocked alice \<and>
   \<not> isPasswordValid toy_compare ''wrong'' alice \<and>
   (2 :: int) - 1 < lockoutDuration None \<and>
   fst (serve_all toy_hash toy_compare None
          [Login 1 1 ''alice@example.com'' ''wrong'', Login 2 2 ''alice@example.com'' ''wrong'',
           Login 3 3 ''alice@example.com'' ''wrong'', Login 4 4 ''alice@example.com'' ''Secret123'']
          alice_store)
     = [InvalidCredentials (Some 2), InvalidCredentials (Some 1), LockedOut, LockedOut]"
proof -
  have h1: "loginAttempts alice = 0" and h2: "\<not> isLocked alice"
    by (simp_all add: alice_def new_User_def)
  have h3: "\<not> isPasswordValid toy_compare ''wrong'' alice"
    by (simp add: isPasswordValid_def toy_compare_def toy_hash_def alice_def new_User_def)
  have h4: "(2 :: int) - 1 < lockoutDuration None" "(3 :: int) - 2 < lockoutDuration None"
    "(4 :: int) - 3 < lockoutDuration None"
    by (simp_all add: lockoutDuration_def)
  have h2': "isLocked alice \<longrightarrow> 3 \<le> loginAttempts alice" using h2 by simp
  show ?thesis
    using C2_three_failures_lock [OF alice_found h1 h2' h3 h3 h3 h4,
        where hash = toy_hash and ?t1.0 = 1 and ?p4.0 = "''Secret123''" and ?t4' = 4]
      alice_found h1 h2 h3 h4
    by simp
qed

section \<open>A locked account rejects every login\<close>

text \<open>
  Claim C4. A login against an account that is locked, before the lockout duration
  has passed since its last attempt, is answered \<open>LockedOut\<close> and leaves the store as
  it was: the attempt counter, the time of the last attempt and the lock are
  unchanged. The answer is the same for every password and every \<open>compare\<close>, so it
  does not depend on a credential check.
\<close>

theorem C4_locked_login_rejected:
  assumes "User_findByEmail e s = Some u" and "isLocked u"
    and "lastLoginAttempt u = Some t" and "now1 - t < lockoutDuration node_env"
  shows "login compare node_env now1 now2 e pw s = (LockedOut, s)"
  using assms by (simp add: login_def User_findByEmail_def isAccountLocked_locked)

text \<open>The witness of C4: Alice's locked account, one millisecond after her last attempt.\<close>

theorem C4_locked_login_rejected_witness:
  "User_findByEmail ''alice@example.com'' alice_locked_store = Some alice_locked \<and>
   isLocked alice_locked \<and> lastLoginAttempt alice_locked = Some 3 \<and>
   (4 :: int) - 3 < lockoutDuration None \<and>
   login toy_compare None 4 5 ''alice@example.com'' ''Secret123'' alice_locked_store
     = (LockedOut, alice_locked_store)"
proof -
  have h2: "isLocked alice_locked" by (simp add: alice_locked_def)
  have h3: "lastLoginAttempt alice_locked = Some 3" by (simp add: alice_locked_def)
  have h4: "(4 :: int) - 3 < lockoutDuration None" by (simp add: lockoutDuration_def)
  show ?thesis
    using C4_locked_login_rejected [OF alice_locked_found h2 h3 h4,
        where compare = toy_compare and ?now2.0 = 5 and pw = "''Secret123''"]
      alice_locked_found h2 h3 h4
    by simp
qed

section \<open>Properties kept by every method and every handler\<close>

lemma all_users_update:
  "all_users P s \<Longrightarrow> P v \<Longrightarrow> all_users P (s\<lparr>users := (users s)[i := v]\<rparr>)"
  unfolding all_users_def list_all_iff using set_update_subset_insert by fastforce

lemma all_users_append:
  "all_users P s \<Longrightarrow> P v \<Longrightarrow> all_users P (s\<lparr>users := users s @ [v], nextId := n\<rparr>)"
  by (simp add: all_users_def)

lemma all_users_nth:
  "all_users P s \<Longrightarrow> findIndex Q (users s) = Some i \<Longrightarrow> P (users s ! i)"
  using findIndex_SomeD [of Q "users s" i] by (simp add: all_users_def list_all_length)

lemma all_users_init: "all_users P init_store"
  by (simp add: all_users_def init_store_def)

lemma all_users_create:
  "all_users P s \<Longrightarrow> P (new_User (nextId s) (Some e) (Some p) (Some n) None now) \<Longrightarrow>
   all_users P (snd (User_create now e p n s))"
  by (simp add: User_create_def Let_def all_users_append)

lemma all_users_update_call:
  assumes "all_users P s" and "\<And>u. P u \<Longrightarrow> P (spread u d)"
  shows "all_users P (snd (User_update i d s))"
  using assms
  by (auto simp: User_update_def Let_def all_users_update all_users_nth split: option.splits)

lemma all_users_delete: "all_users P s \<Longrightarrow> all_users P (snd (User_delete i s))"
  by (auto simp: User_delete_def all_users_def list_all_iff split: option.splits
      dest: in_set_takeD in_set_dropD)

lemma all_users_generate:
  assumes "all_users P s"
    and "\<And>u a b. P u \<Longrightarrow> P (u\<lparr>passwordResetToken := a, passwordResetExpires := b\<rparr>)"
  shows "all_users P (snd (User_generatePasswordResetToken node_env now tok e s))"
  using assms
  by (auto simp: User_generatePasswordResetToken_def Let_def all_users_update all_users_nth
      split: option.splits)

lemma all_users_reset:
  assumes "all_users P s"
    and "\<And>u a. P (u\<lparr>password := a, passwordResetToken := None, passwordResetExpires := None,
            loginAttempts := 0, isLocked := False\<rparr>)"
  shows "all_users P (snd (User_resetPassword now e tok pw s))"
  using assms
  by (auto simp: User_resetPassword_def Let_def all_users_update split: option.splits)

lemma all_users_isAccountLocked:
  assumes "all_users P s" and "\<And>u. P (u\<lparr>loginAttempts := 0, isLocked := False\<rparr>)"
  shows "all_users P (snd (User_isAccountLocked node_env now e s))"
  using assms
  by (auto simp: User_isAccountLocked_def Let_def all_users_update split: option.splits)

subsection \<open>A locked user has reached the threshold\<close>

lemma lat_new [simp]: "locked_at_threshold (new_User i e p n c now)"
  by (simp add: locked_at_threshold_def new_User_def)

lemma lat_spread [simp]: "locked_at_threshold (spread u d) = locked_at_threshold u"
  by (simp add: locked_at_threshold_def spread_def)

lemma lat_recordAttempt: "locked_at_threshold u \<Longrightarrow> locked_at_threshold (recordAttempt now b u)"
  by (auto simp: locked_at_threshold_def recordAttempt_def Let_def)

lemma lat_track:
  "all_users locked_at_threshold s \<Longrightarrow>
   all_users locked_at_threshold (snd (User_trackLoginAttempt now e b s))"
  by (auto simp: User_trackLoginAttempt_def Let_def all_users_update all_users_append
      all_users_nth lat_recordAttempt split: option.splits)


lemma login_store:
  "snd (login compare node_env now1 now2 e pw s) =
     (case User_isAccountLocked node_env now1 e s of
        (locked, s1) \<Rightarrow>
          if locked then s1
          else snd (User_trackLoginAttempt now2 e
                 (case User_findByEmail e s1 of None \<Rightarrow> False
                  | Some u \<Rightarrow> isPasswordValid compare pw u) s1))"
  by (simp add: login_def Let_def split: prod.splits option.splits)

lemma register_store:
  "snd (register hash now e pw n s) = s \<or>
   snd (register hash now e pw n s) = snd (User_create now e (hash pw) n s)"
  by (cases "User_findByEmail e s"; cases "User_create now e (hash pw) n s")
     (simp_all add: register_def)

lemma requestPasswordReset_store:
  "snd (requestPasswordReset node_env now tok e s) = s \<or>
   snd (requestPasswordReset node_env now tok e s) =
     snd (User_generatePasswordResetToken node_env now tok e s)"
proof -
  obtain a s1 where "User_generatePasswordResetToken node_env now tok e s = (a, s1)"
    by (cases "User_generatePasswordResetToken node_env now tok e s")
  then show ?thesis
    by (cases "User_findByEmail e s"; cases a) (simp_all add: requestPasswordReset_def)
qed

lemma resetPassword_store:
  "snd (resetPassword hash now1 now2 e tok pw s) = s \<or>
   snd (resetPassword hash now1 now2 e tok pw s) =
     snd (User_resetPassword now2 e tok (hash pw) s)"
proof -
  obtain a s1 where "User_resetPassword now2 e tok (hash pw) s = (a, s1)"
    by (cases "User_resetPassword now2 e tok (hash pw) s")
  then show ?thesis
    by (cases "User_verifyPasswordResetToken now1 e tok s"; cases a)
       (simp_all add: resetPassword_def)
qed

lemma updateProfile_store:
  "snd (updateProfile i n e s) = s \<or>
   snd (updateProfile i n e s) =
     snd (User_update i \<lparr>upd_name = Some n, upd_email = Some e, upd_password = None\<rparr> s)"
proof -
  obtain a s1 where
    "User_update i \<lparr>upd_name = Some n, upd_email = Some e, upd_password = None\<rparr> s = (a, s1)"
    by (cases "User_update i \<lparr>upd_name = Some n, upd_email = Some e, upd_password = None\<rparr> s")
  then show ?thesis by (cases a) (simp_all add: updateProfile_def)
qed

lemma changePassword_store:
  "snd (changePassword hash compare i cur new s) = s \<or>
   snd (changePassword hash compare i cur new s) =
     snd (User_update i
            \<lparr>upd_name = None, upd_email = None, upd_password = Some (Some (hash new))\<rparr> s)"
proof -
  obtain a s1 where
    "User_update i \<lparr>upd_name = None, upd_email = None, upd_password = Some (Some (hash new))\<rparr> s
       = (a, s1)"
    by (cases "User_update i
                 \<lparr>upd_name = None, upd_email = None, upd_password = Some (Some (hash new))\<rparr> s")
  then show ?thesis
    by (cases a; cases "User_findById i s")
       (simp_all add: changePassword_def split: option.splits)
qed

lemma all_users_serve_other:
  assumes s: "all_users P s"
    and new: "\<And>i e p n c now. P (new_User i e p n c now)"
    and spr: "\<And>u d. P u \<Longrightarrow> P (spread u d)"
    and tok: "\<And>u a b. P u \<Longrightarrow> P (u\<lparr>passwordResetToken := a, passwordResetExpires := b\<rparr>)"
    and rst: "\<And>u a. P (u\<lparr>password := a, passwordResetToken := None,
            passwordResetExpires := None, loginAttempts := 0, isLocked := False\<rparr>)"
    and r: "\<And>now1 now2 e pw. r \<noteq> Login now1 now2 e pw"
  shows "all_users P (snd (serve hash compare node_env r s))"
proof (cases r)
  case (Register now e pw n)
  have "all_users P (snd (User_create now e (hash pw) n s))"
    using s new by (rule all_users_create)
  then show ?thesis using s Register register_store [of hash now e pw n s] by auto
next
  case (Login now1 now2 e pw)
  then show ?thesis using r by simp
next
  case (RequestPasswordReset now tok' e)
  have "all_users P (snd (User_generatePasswordResetToken node_env now tok' e s))"
    using s tok by (rule all_users_generate)
  then show ?thesis
    using s RequestPasswordReset requestPasswordReset_store [of node_env now tok' e s] by auto
next
  case (ResetPassword now1 now2 e tok' pw)
  have "all_users P (snd (User_resetPassword now2 e tok' (hash pw) s))"
    using s rst by (rule all_users_reset)
  then show ?thesis
    using s ResetPassword resetPassword_store [of hash now1 now2 e tok' pw s] by auto
next
  case (UpdateProfile i n e)
  have "all_users P (snd (User_update i \<lparr>upd_name = Some n, upd_email = Some e, upd_password = None\<rparr> s))"
    using s spr by (rule all_users_update_call)
  then show ?thesis using s UpdateProfile updateProfile_store [of i n e s] by auto
next
  case (ChangePassword i cur new)
  have "all_users P (snd (User_update i
     \<lparr>upd_name = None, upd_email = None, upd_password = Some (Some (hash new))\<rparr> s))"
    using s spr by (rule all_users_update_call)
  then show ?thesis
    using s ChangePassword changePassword_store [of hash compare i cur new s] by auto
qed

lemma lat_login:
  assumes "all_users locked_at_threshold s"
  shows "all_users locked_at_threshold (snd (login compare node_env now1 now2 e pw s))"
proof -
  have "all_users locked_at_threshold (snd (User_isAccountLocked node_env now1 e s))"
    using assms by (rule all_users_isAccountLocked) (simp add: locked_at_threshold_def)
  then show ?thesis
    by (auto simp: login_store lat_track split: prod.splits)
qed

lemma lat_serve:
  assumes "all_users locked_at_threshold s"
  shows "all_users locked_at_threshold (snd (serve hash compare node_env r s))"
proof (cases "\<exists>now1 now2 e pw. r = Login now1 now2 e pw")
  case True
  then show ?thesis using assms by (auto simp: lat_login)
next
  case False
  then show ?thesis
    using assms
    by (intro all_users_serve_other) (simp_all, simp_all add: locked_at_threshold_def)
qed

lemma lat_effect:
  assumes s: "all_users locked_at_threshold s"
  shows "all_users locked_at_threshold (effect c s)"
proof (cases c)
  case (Create now e p n)
  then show ?thesis using s by (simp add: all_users_create)
next
  case (Update i d)
  then show ?thesis using s by (simp add: all_users_update_call)
next
  case (Delete i)
  then show ?thesis using s by (simp add: all_users_delete)
next
  case (TrackLoginAttempt now e b)
  then show ?thesis using s by (simp add: lat_track)
next
  case (IsAccountLocked node_env now e)
  then show ?thesis using s
    by (auto intro!: all_users_isAccountLocked simp: locked_at_threshold_def)
next
  case (GeneratePasswordResetToken node_env now tok e)
  then show ?thesis using s
    by (auto intro!: all_users_generate simp: locked_at_threshold_def)
next
  case (ResetPasswordWithToken now e tok pw)
  then show ?thesis using s
    by (auto intro!: all_users_reset simp: locked_at_threshold_def)
next
  case Clear
  then show ?thesis by (simp add: User_clear_def all_users_init)
qed

lemma reachable_by_calls_lat: "reachable_by_calls s \<Longrightarrow> all_users locked_at_threshold s"
  by (induction rule: reachable_by_calls.induct) (simp_all add: all_users_init lat_effect lat_serve)

lemma snd_serve_all_Cons:
  "snd (serve_all hash compare node_env (r # rs) s) =
   snd (serve_all hash compare node_env rs (snd (serve hash compare node_env r s)))"
  by (simp split: prod.splits)


lemma reachable_by_calls_serve_all:
  "reachable_by_calls s \<Longrightarrow> reachable_by_calls (snd (serve_all hash compare node_env rs s))"
proof (induction rs arbitrary: s)
  case Nil
  then show ?case by simp
next
  case (Cons r rs)
  have "reachable_by_calls (snd (serve hash compare node_env r s))"
    using Cons.prems by (rule by_calls_serve)
  from Cons.IH [OF this] show ?case by (simp only: snd_serve_all_Cons)
qed

lemma alice_locked_served:
  "serve_all toy_hash toy_compare None
     [Register 0 ''alice@example.com'' ''Secret123'' ''Alice'',
      Login 1 1 ''alice@example.com'' ''wrong'',
      Login 2 2 ''alice@example.com'' ''wrong'',
      Login 3 3 ''alice@example.com'' ''wrong''] init_store
   = ([Created (userWithoutPassword alice), InvalidCredentials (Some 2),
       InvalidCredentials (Some 1), LockedOut], alice_locked_store)"
  by (simp add: register_def login_def User_isAccountLocked_def User_findByEmail_def
     User_trackLoginAttempt_def recordAttempt_def User_create_def new_User_def has_email_def
     isPasswordValid_def toy_hash_def toy_compare_def init_store_def lockoutDuration_def
     userWithoutPassword_def alice_locked_store_def alice_locked_def alice_def Let_def)


lemma alice_locked_reachable_by_calls: "reachable_by_calls alice_locked_store"
  using reachable_by_calls_serve_all [OF by_calls_init, of toy_hash toy_compare None
      "[Register 0 ''alice@example.com'' ''Secret123'' ''Alice'',
        Login 1 1 ''alice@example.com'' ''wrong'',
        Login 2 2 ''alice@example.com'' ''wrong'',
        Login 3 3 ''alice@example.com'' ''wrong'']"]
  by (simp only: alice_locked_served snd_conv)

text \<open>
  Claim C8. In every store reached from the empty one by calls of the store's methods
  (attempt tracking, the lock check with its unlock, the generation of a reset token,
  the reset of a password, creation, update, deletion) and by the controller's
  handlers (login, reset request, reset completion and the others), in any order,
  every user that is locked has at least three failed attempts.
\<close>

theorem C8_locked_implies_threshold:
  assumes "reachable_by_calls s" and "u \<in> set (users s)" and "isLocked u"
  shows "3 \<le> loginAttempts u"
  using reachable_by_calls_lat [OF assms(1)] assms(2,3)
  by (simp add: all_users_def list_all_iff locked_at_threshold_def)

text \<open>The witness of C8: the store after Alice's three failed logins, where she is locked.\<close>

theorem C8_locked_implies_threshold_witness:
  "reachable_by_calls alice_locked_store \<and> alice_locked \<in> set (users alice_locked_store) \<and>
   isLocked alice_locked \<and> 3 \<le> loginAttempts alice_locked"
proof -
  have m: "alice_locked \<in> set (users alice_locked_store)" by (simp add: alice_locked_store_def)
  have l: "isLocked alice_locked" by (simp add: alice_locked_def)
  show ?thesis
    using C8_locked_implies_threshold [OF alice_locked_reachable_by_calls m l]
      alice_locked_reachable_by_calls m l
    by simp
qed

subsection \<open>The counter of failed attempts never passes three\<close>

lemma wt_new [simp]: "within_threshold (new_User i e p n c now)"
  by (simp add: within_threshold_def new_User_def)

lemma wt_spread [simp]: "within_threshold (spread u d) = within_threshold u"
  by (simp add: within_threshold_def spread_def)








section \<open>A locked account after the lockout duration\<close>

text \<open>
  Claim C1 says that a locked account is unlocked once the lockout duration has passed
  since its last attempt, so that the next login is evaluated afresh. The code does
  not do so. Alice registers at time 0 and fails three logins at times 1, 2 and 3,
  which locks her account. At time 1000000, more than the lockout duration of 900000
  after the last attempt, she logs in with her own password: \<open>isAccountLocked\<close>
  returns \<open>true\<close> at \<open>if (user.isLocked)\<close>, before it reads the clock, the answer is
  \<open>LockedOut\<close>, and the account stays locked with three failed attempts.
\<close>

theorem C1_locked_after_lockout_duration:
  "lockoutDuration None \<le> 1000000 - 3 \<and>
   serve_all toy_hash toy_compare None
     [Register 0 ''alice@example.com'' ''Secret123'' ''Alice'',
      Login 1 1 ''alice@example.com'' ''wrong'',
      Login 2 2 ''alice@example.com'' ''wrong'',
      Login 3 3 ''alice@example.com'' ''wrong'',
      Login 1000000 1000001 ''alice@example.com'' ''Secret123''] init_store
   = ([Created (userWithoutPassword alice), InvalidCredentials (Some 2),
       InvalidCredentials (Some 1), LockedOut, LockedOut], alice_locked_store)"
  by (simp add: register_def login_def User_isAccountLocked_def User_findByEmail_def
     User_trackLoginAttempt_def recordAttempt_def User_create_def new_User_def has_email_def
     isPasswordValid_def toy_hash_def toy_compare_def init_store_def lockoutDuration_def
     userWithoutPassword_def alice_locked_store_def alice_locked_def alice_def Let_def)

text \<open>
  More generally, a login against a locked account is answered \<open>LockedOut\<close> and
  changes nothing, whatever the clock says: only a password reset unlocks it.
\<close>

theorem locked_login_rejected_at_any_time:
  assumes "User_findByEmail e s = Some u" and "isLocked u"
  shows "login compare node_env now1 now2 e pw s = (LockedOut, s)"
  using assms by (simp add: login_def User_findByEmail_def isAccountLocked_locked)

theorem locked_login_rejected_at_any_time_witness:
  "User_findByEmail ''alice@example.com'' alice_locked_store = Some alice_locked \<and>
   isLocked alice_locked \<and>
   login toy_compare None 1000000000 1000000001 ''alice@example.com'' ''Secret123''
     alice_locked_store = (LockedOut, alice_locked_store)"
proof -
  have l: "isLocked alice_locked" by (simp add: alice_locked_def)
  show ?thesis
    using locked_login_rejected_at_any_time [OF alice_locked_found l,
        where compare = toy_compare and node_env = None and ?now1.0 = 1000000000
        and ?now2.0 = 1000000001 and pw = "''Secret123''"] alice_locked_found l
    by simp
qed

section \<open>A profile update without one of its fields\<close>

text \<open>
  Claim C6 says that \<open>updateProfile\<close> leaves a field that the request omits as it
  was. The code does not do so. For Alice's account, a request with a name and no
  email stores no email at all, after which the account is no longer found under
  Alice's email; a request with an email and no name stores no name. The handler
  passes \<open>{ name, email }\<close> to \<open>update\<close>, which has both keys whatever the request
  held, and the spread copies the undefined one over the stored field.
\<close>

theorem C6_omitted_field_cleared:
  "updateProfile 1 (Some ''Alice Smith'') None alice_store
     = (ProfileUpdated (userWithoutPassword (alice\<lparr>name := Some ''Alice Smith'', email := None\<rparr>)),
        \<lparr>users = [alice\<lparr>name := Some ''Alice Smith'', email := None\<rparr>], nextId = 2\<rparr>) \<and>
   User_findByEmail ''alice@example.com''
     (snd (updateProfile 1 (Some ''Alice Smith'') None alice_store)) = None \<and>
   updateProfile 1 None (Some ''alice.smith@example.com'') alice_store
     = (ProfileUpdated (userWithoutPassword
          (alice\<lparr>name := None, email := Some ''alice.smith@example.com''\<rparr>)),
        \<lparr>users = [alice\<lparr>name := None, email := Some ''alice.smith@example.com''\<rparr>],
          nextId = 2\<rparr>)"
  by (simp add: updateProfile_def User_update_def spread_def User_findByEmail_def has_email_def
      emailRegex_test_def plain_char_def is_space_def userWithoutPassword_def alice_store_def
      alice_def new_User_def Let_def)

text \<open>
  The rest of what claim C6 says holds: a profile update changes no field of any user
  other than its name and its email, and neither adds nor removes a user.
\<close>

lemma outside_profile_spread:
  "upd_password d = None \<Longrightarrow> outside_profile (spread u d) = outside_profile u"
  by (simp add: outside_profile_def spread_def)

lemma map_update_same:
  "i < length xs \<Longrightarrow> f v = f (xs ! i) \<Longrightarrow> map f (xs[i := v]) = map f xs"
  by (simp add: map_update list_update_same_conv)

theorem updateProfile_frame:
  "map outside_profile (users (snd (updateProfile i n e s))) = map outside_profile (users s) \<and>
   nextId (snd (updateProfile i n e s)) = nextId s"
proof -
  let ?d = "\<lparr>upd_name = Some n, upd_email = Some e, upd_password = None\<rparr>"
  have "map outside_profile (users (snd (User_update i ?d s))) = map outside_profile (users s) \<and>
      nextId (snd (User_update i ?d s)) = nextId s"
  proof (cases "findIndex (\<lambda>u. id_user u = i) (users s)")
    case None
    then show ?thesis by (simp add: User_update_def)
  next
    case (Some k)
    then have "k < length (users s)" using findIndex_SomeD by fastforce
    then show ?thesis using Some
      by (simp add: User_update_def Let_def map_update_same outside_profile_spread)
  qed
  then show ?thesis using updateProfile_store [of i n e s] by auto
qed

section \<open>An account without a password\<close>

lemma findByEmail_None_iff:
  "User_findByEmail e s = None \<longleftrightarrow> findIndex (has_email e) (users s) = None"
  by (simp add: User_findByEmail_def findIndex_None_iff)

lemma isAccountLocked_keeps_password:
  assumes "User_isAccountLocked node_env now e s = (b, s1)"
    and "find (has_email e) (users s) = Some u"
  shows "\<exists>u1. find (has_email e) (users s1) = Some u1 \<and> password u1 = password u"
proof -
  from assms(2) obtain i where i: "findIndex (has_email e) (users s) = Some i" "users s ! i = u"
    using find_Some_findIndex by fastforce
  have he: "has_email e u" using i findIndex_SomeD by fastforce
  have "find (has_email e) ((users s)[i := u\<lparr>loginAttempts := 0, isLocked := False\<rparr>])
      = Some (u\<lparr>loginAttempts := 0, isLocked := False\<rparr>)"
    using i(1) he by (intro find_update_same) (simp_all add: has_email_def)
  then show ?thesis using assms i
    by (auto simp: User_isAccountLocked_def Let_def split: if_splits option.splits)
qed

text \<open>
  Claim C9. A login against an account whose password is \<open>null\<close> (the record that a
  failed login leaves for an unknown email) is never answered \<open>Authenticated\<close>: the
  password check is false without a call of \<open>compare\<close>, whatever \<open>compare\<close> would
  answer, and the login is answered \<open>LockedOut\<close> or \<open>InvalidCredentials\<close> with a
  number of remaining attempts.
\<close>

theorem C9_no_password_never_authenticated:
  assumes "User_findByEmail e s = Some u" and "password u = None"
  shows "\<not> isPasswordValid compare pw u \<and>
         (\<forall>v. fst (login compare node_env now1 now2 e pw s) \<noteq> Authenticated v) \<and>
         (fst (login compare node_env now1 now2 e pw s) = LockedOut \<or>
          (\<exists>k. fst (login compare node_env now1 now2 e pw s) = InvalidCredentials (Some k)))"
proof -
  obtain b s1 where chk: "User_isAccountLocked node_env now1 e s = (b, s1)"
    by (cases "User_isAccountLocked node_env now1 e s")
  have "fst (login compare node_env now1 now2 e pw s) = LockedOut \<or>
         (\<exists>k. fst (login compare node_env now1 now2 e pw s) = InvalidCredentials (Some k))"
  proof (cases b)
    case True
    then show ?thesis using chk by (simp add: login_def)
  next
    case False
    from isAccountLocked_keeps_password [OF chk] assms
    obtain u1 where u1: "find (has_email e) (users s1) = Some u1" "password u1 = None"
      by (auto simp: User_findByEmail_def)
    then obtain i where i: "findIndex (has_email e) (users s1) = Some i" "users s1 ! i = u1"
      using find_Some_findIndex by fastforce
    have "\<not> isPasswordValid compare pw (users s1 ! i)"
      using i u1 by (simp add: isPasswordValid_def)
    moreover have "User_isAccountLocked node_env now1 e s = (False, s1)"
      using chk False by simp
    ultimately show ?thesis
      using login_fail_step [of node_env now1 e s s1 i compare pw now2] i(1) by simp
  qed
  moreover have "\<not> isPasswordValid compare pw u"
    using assms(2) by (simp add: isPasswordValid_def)
  ultimately show ?thesis by auto
qed

text \<open>The witness of C9: a login against the record of an unknown email, with a \<open>compare\<close> that accepts everything.\<close>

theorem C9_no_password_never_authenticated_witness:
  "User_findByEmail ''ghost@example.com'' ghost_store = Some ghost \<and> password ghost = None \<and>
   \<not> isPasswordValid (\<lambda>p d. True) ''anything'' ghost \<and>
   (\<forall>v. fst (login (\<lambda>p d. True) None 8 9 ''ghost@example.com'' ''anything'' ghost_store)
      \<noteq> Authenticated v) \<and>
   (fst (login (\<lambda>p d. True) None 8 9 ''ghost@example.com'' ''anything'' ghost_store) = LockedOut \<or>
    (\<exists>k. fst (login (\<lambda>p d. True) None 8 9 ''ghost@example.com'' ''anything'' ghost_store)
        = InvalidCredentials (Some k)))"
proof -
  have f: "User_findByEmail ''ghost@example.com'' ghost_store = Some ghost"
    by (simp add: User_findByEmail_def ghost_store_def ghost_def has_email_def)
  have p: "password ghost = None" by (simp add: ghost_def)
  show ?thesis
    using C9_no_password_never_authenticated [OF f p, where compare = "\<lambda>p d. True"
        and node_env = None and ?now1.0 = 8 and ?now2.0 = 9 and pw = "''anything''"] f p
    by simp
qed

section \<open>A login for an unknown email\<close>

text \<open>
  Claim C5. A login whose email no user of the store has is answered
  \<open>InvalidCredentials\<close> (without a number of remaining attempts), and the store gets a
  new record for that email, with the next identifier, no password and no name, one
  failed attempt and the time of the attempt. Further logins for the same email
  add to that record: when each comes within the lockout duration of the one
  before, the second is answered \<open>InvalidCredentials\<close> with 1 attempt remaining, the
  third \<open>LockedOut\<close>, and the record ends with three failed attempts, locked.
\<close>

theorem C5_unknown_email_tracked:
  fixes s :: store and e :: string and t2 :: timestamp
  defines "p \<equiv> \<lparr> id_user = nextId s, email = Some e, password = None, name = None,
       createdAt = t2, loginAttempts = 1, lastLoginAttempt = Some t2, isLocked = False,
       passwordResetToken = None, passwordResetExpires = None \<rparr>"
  assumes absent: "User_findByEmail e s = None"
  shows "login compare node_env t1 t2 e pw s =
           (InvalidCredentials None, s\<lparr>users := users s @ [p], nextId := nextId s + 1\<rparr>) \<and>
         (t3 - t2 < lockoutDuration node_env \<and> t5 - t4 < lockoutDuration node_env \<longrightarrow>
          serve_all hash compare node_env
            [Login t1 t2 e pw, Login t3 t4 e pw2, Login t5 t6 e pw3] s =
          ([InvalidCredentials None, InvalidCredentials (Some 1), LockedOut],
           s\<lparr>users := users s @
                [p\<lparr>loginAttempts := 3, lastLoginAttempt := Some t6, isLocked := True\<rparr>],
             nextId := nextId s + 1\<rparr>))"
proof -
  define s1 where "s1 = s\<lparr>users := users s @ [p], nextId := nextId s + 1\<rparr>"
  have n: "find (has_email e) (users s) = None" using absent by (simp add: User_findByEmail_def)
  have l1: "login compare node_env t1 t2 e pw s = (InvalidCredentials None, s1)"
    using n by (simp add: login_def User_findByEmail_def isAccountLocked_absent
        trackLoginAttempt_absent recordAttempt_def new_User_def Let_def s1_def p_def)
  have rest: "serve_all hash compare node_env
            [Login t1 t2 e pw, Login t3 t4 e pw2, Login t5 t6 e pw3] s =
          ([InvalidCredentials None, InvalidCredentials (Some 1), LockedOut],
           s\<lparr>users := users s @
                [p\<lparr>loginAttempts := 3, lastLoginAttempt := Some t6, isLocked := True\<rparr>],
             nextId := nextId s + 1\<rparr>)"
    if w: "t3 - t2 < lockoutDuration node_env" "t5 - t4 < lockoutDuration node_env"
  proof -
    define k where "k = length (users s)"
    define p2 where "p2 = recordAttempt t4 False p"
    define s2 where "s2 = s1\<lparr>users := (users s1)[k := p2]\<rparr>"
    have hp: "has_email e p" by (simp add: has_email_def p_def)
    have i1: "findIndex (has_email e) (users s1) = Some k" "users s1 ! k = p"
      using n hp by (simp_all add: s1_def k_def findIndex_append_new findIndex_None_iff)
    have nv: "\<And>c x. \<not> isPasswordValid c x p" by (simp add: isPasswordValid_def p_def)
    have a1: "\<not> isLocked p" "loginAttempts p = 1" "lastLoginAttempt p = Some t2"
      by (simp_all add: p_def)
    have l2: "login compare node_env t3 t4 e pw2 s1 = (InvalidCredentials (Some 1), s2)"
      using login_fail_unlocked [OF i1 a1(1), where node_env = node_env and ?now1.0 = t3
          and compare = compare and pw = pw2 and ?now2.0 = t4] a1 nv w
      by (simp add: s2_def p2_def)
    have "findIndex (has_email e) ((users s1)[k := p2]) = Some k"
      using i1(1) hp by (intro findIndex_update_same) (simp_all add: p2_def)
    moreover have "k < length (users s1)" using i1(1) findIndex_SomeD by fastforce
    ultimately have i2: "findIndex (has_email e) (users s2) = Some k" "users s2 ! k = p2"
      by (simp_all add: s2_def)
    have a2: "\<not> isLocked p2" "loginAttempts p2 = 2" "lastLoginAttempt p2 = Some t4"
      using a1 by (simp_all add: p2_def recordAttempt_fail)
    have l3: "login compare node_env t5 t6 e pw3 s2 =
        (LockedOut, s2\<lparr>users := (users s2)[k := recordAttempt t6 False p2]\<rparr>)"
      using login_fail_unlocked [OF i2 a2(1), where node_env = node_env and ?now1.0 = t5
          and compare = compare and pw = pw3 and ?now2.0 = t6] a2 nv w
      by (simp add: p2_def)
    have fin: "s2\<lparr>users := (users s2)[k := recordAttempt t6 False p2]\<rparr> =
        s\<lparr>users := users s @
                [p\<lparr>loginAttempts := 3, lastLoginAttempt := Some t6, isLocked := True\<rparr>],
             nextId := nextId s + 1\<rparr>"
      by (simp add: s2_def s1_def p2_def k_def recordAttempt_def Let_def p_def)
    show ?thesis by (simp add: l1 l2 l3 fin)
  qed
  show ?thesis using l1 rest by (simp add: s1_def)
qed

text \<open>The witness of C5: three logins for an email nobody registered, on the empty store.\<close>

theorem C5_unknown_email_tracked_witness:
  "User_findByEmail ''ghost@example.com'' init_store = None \<and>
   login toy_compare None 6 7 ''ghost@example.com'' ''guess'' init_store
     = (InvalidCredentials None, ghost_store) \<and>
   (8 :: int) - 7 < lockoutDuration None \<and> (10 :: int) - 9 < lockoutDuration None \<and>
   serve_all toy_hash toy_compare None
     [Login 6 7 ''ghost@example.com'' ''guess'', Login 8 9 ''ghost@example.com'' ''guess'',
      Login 10 11 ''ghost@example.com'' ''guess''] init_store
     = ([InvalidCredentials None, InvalidCredentials (Some 1), LockedOut],
        \<lparr>users = [ghost\<lparr>loginAttempts := 3, lastLoginAttempt := Some 11, isLocked := True\<rparr>],
          nextId = 2\<rparr>)"
proof -
  have a: "User_findByEmail ''ghost@example.com'' init_store = None"
    by (simp add: User_findByEmail_def init_store_def)
  have w: "(8 :: int) - 7 < lockoutDuration None" "(10 :: int) - 9 < lockoutDuration None"
    by (simp_all add: lockoutDuration_def)
  show ?thesis
    using C5_unknown_email_tracked [OF a, where compare = toy_compare and node_env = None
        and ?t1.0 = 6 and ?t2.0 = 7 and pw = "''guess''" and ?t3.0 = 8 and ?t4.0 = 9
        and ?t5.0 = 10 and ?t6.0 = 11 and ?pw2.0 = "''guess''" and ?pw3.0 = "''guess''"
        and hash = toy_hash] a w
    by (simp add: init_store_def ghost_store_def ghost_def numeral_2_eq_2 del: serve_all.simps)
qed

section \<open>Resetting a password with a token\<close>

text \<open>
  Claim C3. \<open>User.resetPassword\<close>, for an account found at index \<open>i\<close> whose stored token
  is the request's token and whose expiry is not before \<open>now\<close>, stores the new
  password, clears the token and its expiry, sets the failed attempts to 0 and the
  lock to false (whatever they were), changes no other field and no other user, and
  returns the updated user; after that, a second reset with the same token returns
  \<open>null\<close> and changes nothing, at any time and for any password, and the handler
  answers it \<open>InvalidOrExpiredToken\<close>. When no user has the email, when the stored
  token is not the request's, or when the expiry is before \<open>now\<close>, it returns \<open>null\<close>
  and the store is unchanged. The request's token is a string.
\<close>

theorem C3_resetPassword:
  "(findIndex (has_email e) (users s) = Some i \<and>
    passwordResetToken (users s ! i) = Some token \<and> now \<le> expiresDate (users s ! i) \<longrightarrow>
      (\<exists>u'. User_resetPassword now e token pw s = (Some u', s\<lparr>users := (users s)[i := u']\<rparr>) \<and>
         User_findByEmail e (s\<lparr>users := (users s)[i := u']\<rparr>) = Some u' \<and>
         u' = (users s ! i)\<lparr>password := Some pw, passwordResetToken := None,
                 passwordResetExpires := None, loginAttempts := 0, isLocked := False\<rparr> \<and>
         (\<forall>now' pw'. User_resetPassword now' e token pw' (s\<lparr>users := (users s)[i := u']\<rparr>)
              = (None, s\<lparr>users := (users s)[i := u']\<rparr>)) \<and>
         (\<forall>hash now1 now2 pw'.
            resetPassword hash now1 now2 e token pw' (s\<lparr>users := (users s)[i := u']\<rparr>)
              = (InvalidOrExpiredToken, s\<lparr>users := (users s)[i := u']\<rparr>)))) \<and>
   (User_findByEmail e s = None \<longrightarrow> User_resetPassword now e token pw s = (None, s)) \<and>
   (findIndex (has_email e) (users s) = Some i \<and>
    passwordResetToken (users s ! i) \<noteq> Some token \<longrightarrow>
      User_resetPassword now e token pw s = (None, s)) \<and>
   (findIndex (has_email e) (users s) = Some i \<and> now > expiresDate (users s ! i) \<longrightarrow>
      User_resetPassword now e token pw s = (None, s))"
proof (intro conjI impI)
  assume a: "findIndex (has_email e) (users s) = Some i \<and>
    passwordResetToken (users s ! i) = Some token \<and> now \<le> expiresDate (users s ! i)"
  define u' where "u' = (users s ! i)\<lparr>password := Some pw, passwordResetToken := None,
                 passwordResetExpires := None, loginAttempts := 0, isLocked := False\<rparr>"
  define s' where "s' = s\<lparr>users := (users s)[i := u']\<rparr>"
  have he: "has_email e u'"
    using a findIndex_SomeD [of "has_email e" "users s" i] by (simp add: u'_def has_email_def)
  have r: "User_resetPassword now e token pw s = (Some u', s')"
    using a by (simp add: User_resetPassword_def Let_def u'_def s'_def)
  have fi: "findIndex (has_email e) (users s') = Some i"
    using a he by (simp add: s'_def findIndex_update_same)
  have lt: "i < length (users s)" using a findIndex_SomeD by fastforce
  have f: "User_findByEmail e s' = Some u'"
    using a he by (simp add: User_findByEmail_def s'_def find_update_same)
  have tk: "passwordResetToken (users s' ! i) = None"
    using lt by (simp add: s'_def u'_def)
  have again: "User_resetPassword now' e token pw' s' = (None, s')" for now' pw'
    using fi tk by (simp add: User_resetPassword_def Let_def)
  have "User_verifyPasswordResetToken now1 e token s' = None" for now1
    using f by (simp add: User_verifyPasswordResetToken_def User_findByEmail_def u'_def)
  then have again2: "resetPassword hash now1 now2 e token pw' s' = (InvalidOrExpiredToken, s')"
    for hash now1 now2 pw'
    by (simp add: resetPassword_def)
  show "\<exists>u'. User_resetPassword now e token pw s = (Some u', s\<lparr>users := (users s)[i := u']\<rparr>) \<and>
         User_findByEmail e (s\<lparr>users := (users s)[i := u']\<rparr>) = Some u' \<and>
         u' = (users s ! i)\<lparr>password := Some pw, passwordResetToken := None,
                 passwordResetExpires := None, loginAttempts := 0, isLocked := False\<rparr> \<and>
         (\<forall>now' pw'. User_resetPassword now' e token pw' (s\<lparr>users := (users s)[i := u']\<rparr>)
              = (None, s\<lparr>users := (users s)[i := u']\<rparr>)) \<and>
         (\<forall>hash now1 now2 pw'.
            resetPassword hash now1 now2 e token pw' (s\<lparr>users := (users s)[i := u']\<rparr>)
              = (InvalidOrExpiredToken, s\<lparr>users := (users s)[i := u']\<rparr>))"
    using r f again again2 unfolding s'_def by (intro exI [of _ u']) (simp add: u'_def)
next
  assume "User_findByEmail e s = None"
  then show "User_resetPassword now e token pw s = (None, s)"
    by (simp add: findByEmail_None_iff User_resetPassword_def)
next
  assume "findIndex (has_email e) (users s) = Some i \<and>
    passwordResetToken (users s ! i) \<noteq> Some token"
  then show "User_resetPassword now e token pw s = (None, s)"
    by (simp add: User_resetPassword_def Let_def)
next
  assume "findIndex (has_email e) (users s) = Some i \<and> now > expiresDate (users s ! i)"
  then show "User_resetPassword now e token pw s = (None, s)"
    by (simp add: User_resetPassword_def Let_def)
qed

text \<open>\<open>User.resetPassword\<close> succeeds exactly when \<open>verifyPasswordResetToken\<close> does.\<close>

theorem resetPassword_validates_as_verify:
  "(fst (User_resetPassword now e token pw s) = None) =
   (User_verifyPasswordResetToken now e token s = None)"
proof (cases "findIndex (has_email e) (users s)")
  case None
  then have "find (has_email e) (users s) = None" by (simp add: findIndex_None_iff)
  then show ?thesis using None
    by (simp add: User_resetPassword_def User_verifyPasswordResetToken_def)
next
  case (Some i)
  then have "find (has_email e) (users s) = Some (users s ! i)"
    using findIndex_SomeD by fastforce
  then show ?thesis using Some
    by (simp add: User_resetPassword_def User_verifyPasswordResetToken_def Let_def)
qed

text \<open>
  The witness of C3: locked Alice resets her password with her token; a second
  reset with that token, a wrong token, a reset after the expiry and a reset for an
  unknown email all fail.
\<close>

theorem C3_resetPassword_witness:
  "findIndex (has_email ''alice@example.com'') (users alice_token_store) = Some 0 \<and>
   passwordResetToken (users alice_token_store ! 0) = Some ''k3x9'' \<and>
   (1000 :: int) \<le> expiresDate (users alice_token_store ! 0) \<and>
   isLocked (users alice_token_store ! 0) \<and>
   User_resetPassword 1000 ''alice@example.com'' ''k3x9'' ''#New456'' alice_token_store
     = (Some (alice\<lparr>password := Some ''#New456'', lastLoginAttempt := Some 3\<rparr>),
        \<lparr>users = [alice\<lparr>password := Some ''#New456'', lastLoginAttempt := Some 3\<rparr>],
          nextId = 2\<rparr>) \<and>
   User_resetPassword 2000 ''alice@example.com'' ''k3x9'' ''#Other789''
        \<lparr>users = [alice\<lparr>password := Some ''#New456'', lastLoginAttempt := Some 3\<rparr>],
          nextId = 2\<rparr>
     = (None, \<lparr>users = [alice\<lparr>password := Some ''#New456'', lastLoginAttempt := Some 3\<rparr>],
          nextId = 2\<rparr>) \<and>
   passwordResetToken (users alice_token_store ! 0) \<noteq> Some ''guess'' \<and>
   User_resetPassword 1000 ''alice@example.com'' ''guess'' ''#New456'' alice_token_store
     = (None, alice_token_store) \<and>
   (3600011 :: int) > expiresDate (users alice_token_store ! 0) \<and>
   User_resetPassword 3600011 ''alice@example.com'' ''k3x9'' ''#New456'' alice_token_store
     = (None, alice_token_store) \<and>
   User_findByEmail ''bob@example.com'' alice_token_store = None \<and>
   User_resetPassword 1000 ''bob@example.com'' ''k3x9'' ''#New456'' alice_token_store
     = (None, alice_token_store)"
proof -
  have i: "findIndex (has_email ''alice@example.com'') (users alice_token_store) = Some 0"
    by (simp add: alice_token_store_def alice_with_token_def alice_locked_def alice_def
        new_User_def has_email_def)
  have u: "users alice_token_store ! 0 = alice_with_token"
    by (simp add: alice_token_store_def)
  have t: "passwordResetToken alice_with_token = Some ''k3x9''"
    and x: "expiresDate alice_with_token = 3600010"
    and l: "isLocked alice_with_token"
    by (simp_all add: alice_with_token_def expiresDate_def alice_locked_def)
  have b: "User_findByEmail ''bob@example.com'' alice_token_store = None"
    by (simp add: User_findByEmail_def alice_token_store_def alice_with_token_def
        alice_locked_def alice_def new_User_def has_email_def)
  have r: "alice_with_token\<lparr>password := Some ''#New456'', passwordResetToken := None,
       passwordResetExpires := None, loginAttempts := 0, isLocked := False\<rparr>
     = alice\<lparr>password := Some ''#New456'', lastLoginAttempt := Some 3\<rparr>"
    by (simp add: alice_with_token_def alice_locked_def alice_def new_User_def)
  have s: "alice_token_store\<lparr>users := (users alice_token_store)[0 := v]\<rparr>
     = \<lparr>users = [v], nextId = 2\<rparr>" for v
    by (simp add: alice_token_store_def)
  show ?thesis
    using C3_resetPassword [where e = "''alice@example.com''" and s = alice_token_store
        and i = 0 and token = "''k3x9''" and now = 1000 and pw = "''#New456''"]
      C3_resetPassword [where e = "''alice@example.com''" and s = alice_token_store
        and i = 0 and token = "''guess''" and now = 1000 and pw = "''#New456''"]
      C3_resetPassword [where e = "''alice@example.com''" and s = alice_token_store
        and i = 0 and token = "''k3x9''" and now = 3600011 and pw = "''#New456''"]
      C3_resetPassword [where e = "''bob@example.com''" and s = alice_token_store
        and i = 0 and token = "''k3x9''" and now = 1000 and pw = "''#New456''"]
      i b
    by (simp add: u t x l r s)
qed

section \<open>Creating an account for an email that is taken\<close>

lemma filter_absent: "find P xs = None \<Longrightarrow> filter P xs = []"
  by (induction xs) (auto split: if_splits)

text \<open>
  Claim C7 says that the store's \<open>create\<close> fails with a conflict when the email is
  already present. \<open>User.create\<close> has no such check: called for Alice's email on a
  store that holds Alice, it returns a new user and the store then holds two records
  for that email.
\<close>

theorem C7_create_adds_second_record:
  "User_findByEmail ''alice@example.com'' alice_store = Some alice \<and>
   User_create 5 ''alice@example.com'' ''#Other'' ''Mallory'' alice_store
     = (new_User 2 (Some ''alice@example.com'') (Some ''#Other'') (Some ''Mallory'') None 5,
        \<lparr>users = [alice,
            new_User 2 (Some ''alice@example.com'') (Some ''#Other'') (Some ''Mallory'') None 5],
          nextId = 3\<rparr>) \<and>
   length (filter (has_email ''alice@example.com'')
     (users (snd (User_create 5 ''alice@example.com'' ''#Other'' ''Mallory'' alice_store)))) = 2"
  by (simp add: User_findByEmail_def User_create_def alice_store_def alice_def new_User_def
      has_email_def Let_def)

text \<open>
  Claim C7 as amended. \<open>User.create\<close> makes no check and always appends a new user
  with the next identifier. The check is made by its caller \<open>register\<close>: when a user
  with the email is present, \<open>register\<close> answers \<open>Conflict\<close> and leaves the store
  unchanged; otherwise it answers \<open>Created\<close> and appends the new user, which is then
  the only record for that email.
\<close>

theorem C7_register_conflict:
  "User_create now e p n s
     = (new_User (nextId s) (Some e) (Some p) (Some n) None now,
        s\<lparr>users := users s @ [new_User (nextId s) (Some e) (Some p) (Some n) None now],
          nextId := nextId s + 1\<rparr>) \<and>
   (User_findByEmail e s \<noteq> None \<longrightarrow> register hash now e pw n s = (Conflict, s)) \<and>
   (User_findByEmail e s = None \<longrightarrow>
      register hash now e pw n s
        = (Created (userWithoutPassword
             (new_User (nextId s) (Some e) (Some (hash pw)) (Some n) None now)),
           s\<lparr>users := users s @ [new_User (nextId s) (Some e) (Some (hash pw)) (Some n) None now],
             nextId := nextId s + 1\<rparr>) \<and>
      filter (has_email e) (users (snd (register hash now e pw n s)))
        = [new_User (nextId s) (Some e) (Some (hash pw)) (Some n) None now])"
proof (intro conjI impI)
  show "User_create now e p n s
     = (new_User (nextId s) (Some e) (Some p) (Some n) None now,
        s\<lparr>users := users s @ [new_User (nextId s) (Some e) (Some p) (Some n) None now],
          nextId := nextId s + 1\<rparr>)"
    by (simp add: User_create_def Let_def)
next
  assume "User_findByEmail e s \<noteq> None"
  then show "register hash now e pw n s = (Conflict, s)"
    by (auto simp: register_def)
next
  assume a: "User_findByEmail e s = None"
  then show r: "register hash now e pw n s
        = (Created (userWithoutPassword
             (new_User (nextId s) (Some e) (Some (hash pw)) (Some n) None now)),
           s\<lparr>users := users s @ [new_User (nextId s) (Some e) (Some (hash pw)) (Some n) None now],
             nextId := nextId s + 1\<rparr>)"
    by (simp add: register_def User_create_def Let_def)
  have "filter (has_email e) (users s) = []"
    using a by (simp add: User_findByEmail_def filter_absent)
  then show "filter (has_email e) (users (snd (register hash now e pw n s)))
        = [new_User (nextId s) (Some e) (Some (hash pw)) (Some n) None now]"
    by (simp add: r has_email_def new_User_def)
qed

text \<open>The witness of C7 as amended: registering Alice twice.\<close>

theorem C7_register_conflict_witness:
  "User_findByEmail ''alice@example.com'' alice_store \<noteq> None \<and>
   register toy_hash 5 ''alice@example.com'' ''Other'' ''Mallory'' alice_store
     = (Conflict, alice_store) \<and>
   User_findByEmail ''alice@example.com'' init_store = None \<and>
   register toy_hash 0 ''alice@example.com'' ''Secret123'' ''Alice'' init_store
     = (Created (userWithoutPassword alice), alice_store) \<and>
   filter (has_email ''alice@example.com'')
     (users (snd (register toy_hash 0 ''alice@example.com'' ''Secret123'' ''Alice'' init_store)))
     = [alice]"
proof -
  have a: "User_findByEmail ''alice@example.com'' alice_store \<noteq> None"
    by (simp add: alice_found)
  have b: "User_findByEmail ''alice@example.com'' init_store = None"
    by (simp add: User_findByEmail_def init_store_def)
  have c: "init_store\<lparr>users := users init_store @ [alice], nextId := nextId init_store + 1\<rparr>
      = alice_store"
    by (simp add: init_store_def alice_store_def)
  have d: "new_User (nextId init_store) (Some ''alice@example.com'') (Some (toy_hash ''Secret123''))
       (Some ''Alice'') None 0 = alice"
    by (simp add: alice_def init_store_def)
  have k1: "register toy_hash 5 ''alice@example.com'' ''Other'' ''Mallory'' alice_store
      = (Conflict, alice_store)"
    using C7_register_conflict [where e = "''alice@example.com''" and s = alice_store
        and hash = toy_hash and now = 5 and pw = "''Other''" and n = "''Mallory''"] a
    by blast
  have k2: "register toy_hash 0 ''alice@example.com'' ''Secret123'' ''Alice'' init_store
        = (Created (userWithoutPassword alice), alice_store) \<and>
      filter (has_email ''alice@example.com'')
        (users (snd (register toy_hash 0 ''alice@example.com'' ''Secret123'' ''Alice'' init_store)))
        = [alice]"
    using C7_register_conflict [where e = "''alice@example.com''" and s = init_store
        and hash = toy_hash and now = 0 and pw = "''Secret123''" and n = "''Alice''"] b
    unfolding d c by blast
  show ?thesis using a b k1 k2 by blast
qed

end
